theory Spec2Isabelle
  imports
    Main
    "HOL-Library.Word"
    "HOL-Library.AList"
    "HOL-Library.Extended_Nat"
begin

unbundle bit_operations_syntax

text \<open>
  The render pipeline of the kanban view (src/kanban-view/render-pipeline.ts) and the part
  of the view that drives it (src/kanban-view.ts): merging and ordering of groups, the
  render signature, column snapshots and their diff, the choice between skipping, a
  partial and a full render, and the reordering of card paths on a drop.
\<close>

section \<open>JavaScript values used by the render pipeline\<close>

text \<open>
  A JavaScript string is a sequence of UTF-16 code units; \<open>charCodeAt\<close> reads one of
  them, and \<open>===\<close> on strings compares the sequences. String literals of the source are
  ASCII and are written \<open>lit ''...''\<close>.
\<close>

type_synonym jsstring = "16 word list"

definition lit :: "string \<Rightarrow> jsstring" where
  "lit s = map (\<lambda>c. word_of_nat (of_char c)) s"

text \<open>\<open>Array.prototype.join\<close> on an array of strings.\<close>

fun join :: "jsstring \<Rightarrow> jsstring list \<Rightarrow> jsstring" where
  "join sep [] = []"
| "join sep [x] = x"
| "join sep (x # y # ys) = x @ sep @ join sep (y # ys)"

text \<open>
  \<open>Array.prototype.indexOf\<close>: the first index holding the element, \<open>-1\<close> when there is
  none.
\<close>

fun indexOf :: "'a list \<Rightarrow> 'a \<Rightarrow> int" where
  "indexOf [] x = -1"
| "indexOf (y # ys) x =
     (if y = x then 0
      else (let i = indexOf ys x in if i = -1 then -1 else i + 1))"

text \<open>
  \<open>xs.splice(start, 0, ...items)\<close>: a negative start counts from the end, a start past
  the end is the end; nothing is deleted.
\<close>

definition spliceInsert :: "'a list \<Rightarrow> int \<Rightarrow> 'a list \<Rightarrow> 'a list" where
  "spliceInsert xs start items =
     (let len = int (length xs);
          s = (if start < 0 then max (len + start) 0 else min start len)
      in take (nat s) xs @ items @ drop (nat s) xs)"

text \<open>
  A \<open>Map\<close> iterates in insertion order, and \<open>set\<close> on a key that is present replaces the
  value where it stands: an association list with \<^const>\<open>AList.update\<close>, read with
  \<^const>\<open>map_of\<close>. \<open>new Map(pairs)\<close> sets the pairs one after the other.
\<close>

type_synonym ('k, 'v) jsmap = "('k \<times> 'v) list"

definition mapFromEntries :: "('k \<times> 'v) list \<Rightarrow> ('k, 'v) jsmap" where
  "mapFromEntries pairs = fold (\<lambda>(k, v) m. AList.update k v m) pairs []"

text \<open>
  \<open>Number.prototype.toString(radix)\<close> on an integer, for a radix from 2 to 36 (the source
  prints the hash with radix 36): the digits \<open>0-9a-z\<close>, a minus sign before the digits of
  a negative number.
\<close>

definition digitChar :: "nat \<Rightarrow> 16 word" where
  "digitChar d = (if d < 10 then word_of_nat (48 + d) else word_of_nat (87 + d))"

function natToRadix :: "nat \<Rightarrow> nat \<Rightarrow> jsstring" where
  "natToRadix radix n =
     (if radix < 2 \<or> n < radix then [digitChar n]
      else natToRadix radix (n div radix) @ [digitChar (n mod radix)])"
  by pat_completeness auto
termination
  by (relation "measure (\<lambda>(radix, n). n)") auto

declare natToRadix.simps [simp del]

definition intToString :: "nat \<Rightarrow> int \<Rightarrow> jsstring" where
  "intToString radix i =
     (if i < 0 then lit ''-'' @ natToRadix radix (nat (- i)) else natToRadix radix (nat i))"

text \<open>
  \<open>JSON.stringify\<close> on a string (QuoteJSONString): the short escapes, a backslash, \<open>u\<close> and
  four lower-case hex digits for the other control characters and for a surrogate that is not
  part of a pair, every other code unit as it is. \<open>0x22\<close> is the double quote and
  \<open>0x5C\<close> the backslash.
\<close>

definition isLeadSurrogate :: "16 word \<Rightarrow> bool" where
  "isLeadSurrogate c \<longleftrightarrow> 0xD800 \<le> c \<and> c \<le> 0xDBFF"

definition isTrailSurrogate :: "16 word \<Rightarrow> bool" where
  "isTrailSurrogate c \<longleftrightarrow> 0xDC00 \<le> c \<and> c \<le> 0xDFFF"

definition unicodeEscape :: "16 word \<Rightarrow> jsstring" where
  "unicodeEscape c =
     (let n = unat c
      in [0x5C, 0x75, digitChar (n div 4096 mod 16), digitChar (n div 256 mod 16),
          digitChar (n div 16 mod 16), digitChar (n mod 16)])"

definition jsonEscapeUnit :: "16 word \<Rightarrow> jsstring" where
  "jsonEscapeUnit c =
     (if c = 0x08 then [0x5C, 0x62]
      else if c = 0x09 then [0x5C, 0x74]
      else if c = 0x0A then [0x5C, 0x6E]
      else if c = 0x0C then [0x5C, 0x66]
      else if c = 0x0D then [0x5C, 0x72]
      else if c = 0x22 then [0x5C, 0x22]
      else if c = 0x5C then [0x5C, 0x5C]
      else if c < 0x20 \<or> isLeadSurrogate c \<or> isTrailSurrogate c then unicodeEscape c
      else [c])"

fun jsonEscapeUnits :: "jsstring \<Rightarrow> jsstring" where
  "jsonEscapeUnits [] = []"
| "jsonEscapeUnits [c] = jsonEscapeUnit c"
| "jsonEscapeUnits (c # d # ds) =
     (if isLeadSurrogate c \<and> isTrailSurrogate d then c # d # jsonEscapeUnits ds
      else jsonEscapeUnit c @ jsonEscapeUnits (d # ds))"

definition quoteJSONString :: "jsstring \<Rightarrow> jsstring" where
  "quoteJSONString s = [0x22] @ jsonEscapeUnits s @ [0x22]"

section \<open>Data model (render-pipeline.ts)\<close>

text \<open>
  \<open>BasesEntry\<close> is an object of the host application. The pipeline reads its
  \<open>file.path\<close> and calls \<open>getValue(propertyId)\<close>, whose result is \<open>None\<close> for
  \<open>null\<close>/\<open>undefined\<close>. \<open>objectId\<close> stands for the identity of the object (its
  reference); two entries with different \<open>objectId\<close> may well hold the same values.
\<close>

record 'v BasesEntry =
  objectId :: nat
  file_path :: jsstring
  getValue :: "jsstring \<Rightarrow> 'v option"

text \<open>A group key is any value; \<open>None\<close> is \<open>null\<close> or \<open>undefined\<close>.\<close>

record 'v BasesEntryGroup =
  key :: "'v option"
  hasKey :: bool
  entries :: "'v BasesEntry list"

record 'v RenderedGroup =
  rg_group :: "'v BasesEntryGroup"
  rg_entries :: "'v BasesEntry list"

record 'n DisplaySettings =
  cardTitleSource :: jsstring
  cardTitleMaxLength :: 'n
  propertyValueSeparator :: jsstring
  tagPropertySuffix :: jsstring
  tagSaturation :: 'n
  tagLightness :: 'n
  tagAlpha :: 'n

type_synonym ColumnSnapshot = "(jsstring, jsstring list) jsmap"

record PartialRenderResult =
  canPartial :: bool
  changedColumns :: "jsstring list"

text \<open>
  \<open>getColumnKey\<close> (imported from \<open>./utils\<close>; the same function is written out in
  components/KanbanColumn.svelte). \<open>toStr\<close> is JavaScript's \<open>String(...)\<close> on the
  values that are not \<open>null\<close> or \<open>undefined\<close>.
\<close>

definition getColumnKey :: "('v \<Rightarrow> jsstring) \<Rightarrow> 'v option \<Rightarrow> jsstring" where
  "getColumnKey toStr groupKey =
     (case groupKey of
        None \<Rightarrow> lit ''__bases_kanban_no_value__''
      | Some v \<Rightarrow> toStr v)"

section \<open>Merging, ordering and card order (render-pipeline.ts)\<close>

text \<open>
  One turn of the loop of \<open>mergeGroupsByColumnKey\<close>: a group whose column key is new is
  copied into the map; otherwise the group already there takes the flag and the entries.
\<close>

definition mergeStep ::
  "('v \<Rightarrow> jsstring) \<Rightarrow> 'v BasesEntryGroup \<Rightarrow> (jsstring, 'v BasesEntryGroup) jsmap
     \<Rightarrow> (jsstring, 'v BasesEntryGroup) jsmap" where
  "mergeStep toStr grp mergedByColumnKey =
     (let columnKey = getColumnKey toStr (key grp)
      in case map_of mergedByColumnKey columnKey of
           None \<Rightarrow>
             AList.update columnKey
               \<lparr>key = key grp, hasKey = hasKey grp, entries = entries grp\<rparr>
               mergedByColumnKey
         | Some existing \<Rightarrow>
             AList.update columnKey
               (existing\<lparr>hasKey := hasKey existing \<or> hasKey grp,
                          entries := entries existing @ entries grp\<rparr>)
               mergedByColumnKey)"

definition mergeGroupsByColumnKey ::
  "('v \<Rightarrow> jsstring) \<Rightarrow> 'v BasesEntryGroup list \<Rightarrow> 'v BasesEntryGroup list" where
  "mergeGroupsByColumnKey toStr groups = map snd (fold (mergeStep toStr) groups [])"

text \<open>
  \<open>Array.prototype.sort\<close> is stable; the comparator orders by the index in the
  configured order, a key that is not configured counting as infinity, so the result is
  the stable sort by that index.
\<close>

definition sortGroupsByColumnOrder ::
  "('v \<Rightarrow> jsstring) \<Rightarrow> 'v BasesEntryGroup list \<Rightarrow> jsstring list \<Rightarrow> 'v BasesEntryGroup list" where
  "sortGroupsByColumnOrder toStr groups columnOrder =
     (if length columnOrder = 0 then groups
      else
        (let orderMap = mapFromEntries (zip columnOrder [0 ..< length columnOrder]);
             index = (\<lambda>g. case map_of orderMap (getColumnKey toStr (key g)) of
                              None \<Rightarrow> (\<infinity> :: enat)
                            | Some i \<Rightarrow> enat i)
         in sort_key index groups))"

definition applyLocalCardOrder ::
  "jsstring \<Rightarrow> 'v BasesEntry list \<Rightarrow> (jsstring, jsstring list) jsmap \<Rightarrow> 'v BasesEntry list" where
  "applyLocalCardOrder columnKey entryList localOrderByColumn =
     (case map_of localOrderByColumn columnKey of
        None \<Rightarrow> entryList
      | Some orderedPaths \<Rightarrow>
          if length orderedPaths = 0 then entryList
          else
            (let entryByPath = mapFromEntries (map (\<lambda>entry. (file_path entry, entry)) entryList);
                 (nextEntries, usedPaths) =
                   fold (\<lambda>path (nextEntries, usedPaths).
                           case map_of entryByPath path of
                             None \<Rightarrow> (nextEntries, usedPaths)
                           | Some entry \<Rightarrow> (nextEntries @ [entry], path # usedPaths))
                     orderedPaths ([], []);
                 newEntries = filter (\<lambda>entry. file_path entry \<notin> set usedPaths) entryList
             in newEntries @ nextEntries))"

definition buildRenderedGroups ::
  "('v \<Rightarrow> jsstring) \<Rightarrow> 'v BasesEntryGroup list \<Rightarrow> (jsstring, jsstring list) jsmap
     \<Rightarrow> 'v RenderedGroup list" where
  "buildRenderedGroups toStr orderedGroups localCardOrderByColumn =
     map (\<lambda>grp. \<lparr>rg_group = grp,
                 rg_entries = applyLocalCardOrder (getColumnKey toStr (key grp)) (entries grp)
                                localCardOrderByColumn\<rparr>)
       orderedGroups"

section \<open>Render signature (render-pipeline.ts)\<close>

text \<open>
  The hash runs over the code units of the joined parts; \<open>((hash << 5) - hash + char) | 0\<close>
  is arithmetic modulo \<open>2^32\<close>, and \<open>toString(36)\<close> prints the signed value.
\<close>

definition computePropertyValuesHash ::
  "('v \<Rightarrow> jsstring) \<Rightarrow> 'v BasesEntryGroup list \<Rightarrow> jsstring list \<Rightarrow> jsstring" where
  "computePropertyValuesHash toStr groups propertiesToTrack =
     (if length propertiesToTrack = 0 then []
      else
        (let parts =
               concat (map (\<lambda>grp.
                 concat (map (\<lambda>entry.
                   map (\<lambda>propertyId.
                          (let entryPath = file_path entry;
                               valueStr = (case getValue entry propertyId of
                                             None \<Rightarrow> lit ''__null__''
                                           | Some v \<Rightarrow> toStr v)
                           in entryPath @ lit '':'' @ propertyId @ lit ''='' @ valueStr))
                     propertiesToTrack)
                   (entries grp)))
                 groups);
             combined = join (lit ''|'') parts;
             hash = fold (\<lambda>char hash. push_bit 5 hash - hash + ucast char) combined (0 :: 32 word)
         in intToString 36 (sint hash)))"

text \<open>
  \<open>JSON.stringify(displaySettings)\<close>: the keys in the order of the object literal that
  \<open>render\<close> builds; \<open>jsonNumber\<close> is the JSON text of a number. For the local order,
  \<open>JSON.stringify([...map.entries()])\<close>: the pairs in the insertion order of the map.
\<close>

definition stringifyStringArray :: "jsstring list \<Rightarrow> jsstring" where
  "stringifyStringArray xs = lit ''['' @ join (lit '','') (map quoteJSONString xs) @ lit '']''"

definition stringifyMapEntries :: "(jsstring, jsstring list) jsmap \<Rightarrow> jsstring" where
  "stringifyMapEntries m =
     lit ''['' @
     join (lit '','')
       (map (\<lambda>(k, paths).
               lit ''['' @ quoteJSONString k @ lit '','' @ stringifyStringArray paths @ lit '']'')
          m)
     @ lit '']''"

definition stringifyDisplaySettings :: "('n \<Rightarrow> jsstring) \<Rightarrow> 'n DisplaySettings \<Rightarrow> jsstring" where
  "stringifyDisplaySettings jsonNumber d =
     lit ''{''
     @ quoteJSONString (lit ''cardTitleSource'') @ lit '':'' @ quoteJSONString (cardTitleSource d)
     @ lit '','' @ quoteJSONString (lit ''cardTitleMaxLength'') @ lit '':''
       @ jsonNumber (cardTitleMaxLength d)
     @ lit '','' @ quoteJSONString (lit ''propertyValueSeparator'') @ lit '':''
       @ quoteJSONString (propertyValueSeparator d)
     @ lit '','' @ quoteJSONString (lit ''tagPropertySuffix'') @ lit '':''
       @ quoteJSONString (tagPropertySuffix d)
     @ lit '','' @ quoteJSONString (lit ''tagSaturation'') @ lit '':'' @ jsonNumber (tagSaturation d)
     @ lit '','' @ quoteJSONString (lit ''tagLightness'') @ lit '':'' @ jsonNumber (tagLightness d)
     @ lit '','' @ quoteJSONString (lit ''tagAlpha'') @ lit '':'' @ jsonNumber (tagAlpha d)
     @ lit ''}''"

definition computeRenderSignature ::
  "('v \<Rightarrow> jsstring) \<Rightarrow> ('n \<Rightarrow> jsstring) \<Rightarrow> 'v BasesEntryGroup list \<Rightarrow> 'n DisplaySettings
     \<Rightarrow> (jsstring, jsstring list) jsmap \<Rightarrow> jsstring list \<Rightarrow> jsstring option \<Rightarrow> jsstring" where
  "computeRenderSignature toStr jsonNumber groups displaySettings localCardOrderByColumn
       selectedProperties groupByProperty =
     (let groupKeys = join (lit ''|'') (map (\<lambda>g. getColumnKey toStr (key g)) groups);
          entryPaths = join (lit ''|'') (concat (map (\<lambda>g. map file_path (entries g)) groups));
          settingsHash = stringifyDisplaySettings jsonNumber displaySettings;
          localOrderHash = stringifyMapEntries localCardOrderByColumn;
          propertiesToTrack =
            filter (\<lambda>propertyId. propertyId \<noteq> lit ''file.name''
                       \<and> Some propertyId \<noteq> groupByProperty)
              selectedProperties;
          propertyValuesHash = computePropertyValuesHash toStr groups propertiesToTrack
      in groupKeys @ lit ''::'' @ entryPaths @ lit ''::'' @ settingsHash @ lit ''::''
         @ localOrderHash @ lit ''::'' @ propertyValuesHash)"

definition canSkipFullRender :: "jsstring \<Rightarrow> jsstring option \<Rightarrow> bool \<Rightarrow> bool" where
  "canSkipFullRender currentSignature lastRenderSignature hasRenderedBoard =
     (if \<not> hasRenderedBoard \<or> lastRenderSignature = None then False
      else Some currentSignature = lastRenderSignature)"

section \<open>Column snapshots and their diff (render-pipeline.ts)\<close>

definition computeColumnSnapshots ::
  "('v \<Rightarrow> jsstring) \<Rightarrow> 'v RenderedGroup list \<Rightarrow> ColumnSnapshot" where
  "computeColumnSnapshots toStr renderedGroups =
     fold (\<lambda>rg snapshots.
             AList.update (getColumnKey toStr (key (rg_group rg)))
               (map file_path (rg_entries rg)) snapshots)
       renderedGroups []"

definition pathsDiffer :: "jsstring list \<Rightarrow> jsstring list \<Rightarrow> bool" where
  "pathsDiffer currentPaths previousPaths =
     list_ex (\<lambda>i. currentPaths ! i \<noteq> previousPaths ! i) [0 ..< length currentPaths]"

definition findChangedColumns :: "ColumnSnapshot \<Rightarrow> ColumnSnapshot \<Rightarrow> jsstring list" where
  "findChangedColumns previous current =
     (let changed =
            fold (\<lambda>(k, currentPaths) changed.
                    case map_of previous k of
                      None \<Rightarrow> changed @ [k]
                    | Some previousPaths \<Rightarrow>
                        if length currentPaths \<noteq> length previousPaths then changed @ [k]
                        else if pathsDiffer currentPaths previousPaths then changed @ [k]
                        else changed)
              current []
      in fold (\<lambda>k changed. if map_of current k = None then changed @ [k] else changed)
           (map fst previous) changed)"

definition canRenderPartially ::
  "('v \<Rightarrow> jsstring) \<Rightarrow> 'v RenderedGroup list \<Rightarrow> ColumnSnapshot \<Rightarrow> bool
     \<Rightarrow> PartialRenderResult" where
  "canRenderPartially toStr renderedGroups lastColumnPathSnapshots hasRenderedBoard =
     (if \<not> hasRenderedBoard \<or> length lastColumnPathSnapshots = 0
      then \<lparr>canPartial = False, changedColumns = []\<rparr>
      else
        (let currentSnapshots = computeColumnSnapshots toStr renderedGroups;
             changed = findChangedColumns lastColumnPathSnapshots currentSnapshots
         in if length changed = 0 then \<lparr>canPartial = False, changedColumns = []\<rparr>
            else
              (let boardStructureChanged =
                     (length currentSnapshots \<noteq> length lastColumnPathSnapshots
                      \<or> list_ex (\<lambda>k. map_of lastColumnPathSnapshots k = None) changed)
               in if boardStructureChanged then \<lparr>canPartial = False, changedColumns = []\<rparr>
                  else if length changed > 5 then \<lparr>canPartial = False, changedColumns = []\<rparr>
                  else \<lparr>canPartial = True, changedColumns = changed\<rparr>)))"


section \<open>The view (kanban-view.ts)\<close>

datatype Placement = Before | After

definition reorderPathsForDrop ::
  "jsstring list \<Rightarrow> jsstring list \<Rightarrow> jsstring option \<Rightarrow> Placement \<Rightarrow> jsstring list" where
  "reorderPathsForDrop existingPaths movedPaths targetPath placement =
     (if targetPath \<noteq> None \<and> the targetPath \<in> set movedPaths then existingPaths
      else
        (let nextPaths = filter (\<lambda>path. path \<notin> set movedPaths) existingPaths;
             insertionIndex =
               (case targetPath of
                  None \<Rightarrow> int (length nextPaths)
                | Some t \<Rightarrow>
                    (let targetIndex = indexOf nextPaths t
                     in if targetIndex \<noteq> -1
                        then (if placement = Before then targetIndex else targetIndex + 1)
                        else int (length nextPaths)))
         in spliceInsert nextPaths insertionIndex movedPaths))"

text \<open>
  The fields of the view that the render decision reads and writes. What \<open>render\<close>
  takes from the host and from helpers outside these sources (the grouped data, the
  settings, the parsed local card order and column order, the selected properties, the
  detected group-by property, whether the board element is found) is its input;
  \<open>hasConfiguredGroupBy\<close> (from \<open>./utils\<close>) is a parameter.
\<close>

record ViewState =
  hasRenderedBoard :: bool
  lastRenderSignature :: "jsstring option"
  lastColumnPathSnapshots :: ColumnSnapshot
  pendingLocalScrollRevision :: "nat option"
  viewSessionId :: jsstring

definition initialView :: "jsstring \<Rightarrow> ViewState" where
  "initialView sessionId =
     \<lparr>hasRenderedBoard = False, lastRenderSignature = None, lastColumnPathSnapshots = [],
      pendingLocalScrollRevision = None, viewSessionId = sessionId\<rparr>"

record ('v, 'n) RenderInput =
  groupedData :: "'v BasesEntryGroup list"
  settings :: "'n DisplaySettings"
  localCardOrderConfig :: "(jsstring, jsstring list) jsmap"
  selectedPropertiesOfData :: "jsstring list"
  detectedGroupByProperty :: "jsstring option"
  columnOrderConfig :: "jsstring list"
  boardElFound :: bool

datatype RenderOutcome =
    SkippedOwnScrollUpdate
  | SkippedFullRender
  | PlaceholderRender
  | PartialRender "jsstring list"
  | FullRender

definition render ::
  "('v \<Rightarrow> jsstring) \<Rightarrow> ('n \<Rightarrow> jsstring) \<Rightarrow> ('v BasesEntryGroup list \<Rightarrow> bool)
     \<Rightarrow> ViewState \<Rightarrow> ('v, 'n) RenderInput \<Rightarrow> RenderOutcome \<times> ViewState" where
  "render toStr jsonNumber hasConfiguredGroupBy this inp =
     (let rawGroups = groupedData inp;
          groups = mergeGroupsByColumnKey toStr rawGroups;
          displaySettings = settings inp;
          localCardOrderByColumn = localCardOrderConfig inp;
          selectedProperties = selectedPropertiesOfData inp;
          groupByProperty = detectedGroupByProperty inp;
          currentSignature =
            computeRenderSignature toStr jsonNumber groups displaySettings
              localCardOrderByColumn selectedProperties groupByProperty
      in if canSkipFullRender currentSignature (lastRenderSignature this) (hasRenderedBoard this)
         then (SkippedFullRender, this)
         else if \<not> hasConfiguredGroupBy groups then (PlaceholderRender, this)
         else
           (let columnOrder = columnOrderConfig inp;
                orderedGroups = sortGroupsByColumnOrder toStr groups columnOrder;
                renderedGroups = buildRenderedGroups toStr orderedGroups localCardOrderByColumn;
                partial = canRenderPartially toStr renderedGroups (lastColumnPathSnapshots this)
                            (hasRenderedBoard this)
            in if canPartial partial \<and> length (changedColumns partial) > 0
               then
                 (PartialRender (changedColumns partial),
                  (if boardElFound inp
                   then this\<lparr>lastColumnPathSnapshots :=
                               computeColumnSnapshots toStr renderedGroups\<rparr>
                   else this)
                  \<lparr>lastRenderSignature :=
                     Some (computeRenderSignature toStr jsonNumber groups displaySettings
                             localCardOrderByColumn selectedProperties groupByProperty)\<rparr>)
               else
                 (FullRender,
                  this\<lparr>hasRenderedBoard := True,
                       lastRenderSignature :=
                         Some (computeRenderSignature toStr jsonNumber groups displaySettings
                                 localCardOrderByColumn selectedProperties groupByProperty),
                       lastColumnPathSnapshots := computeColumnSnapshots toStr renderedGroups\<rparr>)))"

text \<open>
  \<open>onDataUpdated\<close> drops the update that echoes the view's own scroll save. The scroll
  state read from the configuration (\<open>loadScrollState\<close>, a helper outside these sources)
  is an input; of its fields the session and the revision are compared.
\<close>

record ScrollState =
  sessionId :: jsstring
  revision :: nat

definition shouldSkipRenderForOwnScrollUpdate ::
  "ViewState \<Rightarrow> ScrollState option \<Rightarrow> bool \<times> ViewState" where
  "shouldSkipRenderForOwnScrollUpdate this scrollState =
     (if pendingLocalScrollRevision this = None then (False, this)
      else
        (case scrollState of
           None \<Rightarrow> (False, this)
         | Some st \<Rightarrow>
             if sessionId st = viewSessionId this
                \<and> Some (revision st) = pendingLocalScrollRevision this
             then (True, this\<lparr>pendingLocalScrollRevision := None\<rparr>)
             else (False, this)))"

definition onDataUpdated ::
  "('v \<Rightarrow> jsstring) \<Rightarrow> ('n \<Rightarrow> jsstring) \<Rightarrow> ('v BasesEntryGroup list \<Rightarrow> bool)
     \<Rightarrow> ViewState \<Rightarrow> ScrollState option \<Rightarrow> ('v, 'n) RenderInput
     \<Rightarrow> RenderOutcome \<times> ViewState" where
  "onDataUpdated toStr jsonNumber hasConfiguredGroupBy this scrollState inp =
     (case shouldSkipRenderForOwnScrollUpdate this scrollState of
        (True, this') \<Rightarrow> (SkippedOwnScrollUpdate, this')
      | (False, this') \<Rightarrow> render toStr jsonNumber hasConfiguredGroupBy this' inp)"

text \<open>
  The operations that reach these fields: a data update of the host, and the debounced
  scroll save, which records the revision it wrote as pending. \<open>render\<close> runs on data
  updates only.
\<close>

datatype ('v, 'n) ViewOp =
    DataUpdated "ScrollState option" "('v, 'n) RenderInput"
  | ScrollSaved nat

definition viewStep ::
  "('v \<Rightarrow> jsstring) \<Rightarrow> ('n \<Rightarrow> jsstring) \<Rightarrow> ('v BasesEntryGroup list \<Rightarrow> bool)
     \<Rightarrow> ViewState \<Rightarrow> ('v, 'n) ViewOp \<Rightarrow> ViewState" where
  "viewStep toStr jsonNumber hasConfiguredGroupBy this op =
     (case op of
        DataUpdated scrollState inp \<Rightarrow>
          snd (onDataUpdated toStr jsonNumber hasConfiguredGroupBy this scrollState inp)
      | ScrollSaved newRevision \<Rightarrow> this\<lparr>pendingLocalScrollRevision := Some newRevision\<rparr>)"

definition runView ::
  "('v \<Rightarrow> jsstring) \<Rightarrow> ('n \<Rightarrow> jsstring) \<Rightarrow> ('v BasesEntryGroup list \<Rightarrow> bool)
     \<Rightarrow> ViewState \<Rightarrow> ('v, 'n) ViewOp list \<Rightarrow> ViewState" where
  "runView toStr jsonNumber hasConfiguredGroupBy this ops =
     fold (\<lambda>op s. viewStep toStr jsonNumber hasConfiguredGroupBy s op) ops this"

section \<open>Notions of the specification\<close>

text \<open>
  The first occurrences of the elements of a list, in order, and the number of entries of
  a list of groups: what the claims about merging are stated with. Two entries, or two
  groups, hold the same values when they agree on everything but the identity of the
  entry objects; two maps hold the same values when they hold the same entries, in
  whatever insertion order. Two groups hold the same rendered data when they agree on
  the normalized column key, on the entry paths and, for the tracked properties, on
  the string form of the value (absent for \<open>null\<close> and \<open>undefined\<close>).
\<close>

primrec firstOccurrences :: "'a list \<Rightarrow> 'a list" where
  "firstOccurrences [] = []"
| "firstOccurrences (x # xs) = x # filter (\<lambda>y. y \<noteq> x) (firstOccurrences xs)"

definition totalEntries :: "'v BasesEntryGroup list \<Rightarrow> nat" where
  "totalEntries groups = sum_list (map (\<lambda>g. length (entries g)) groups)"

definition sameEntryValues :: "'v BasesEntry \<Rightarrow> 'v BasesEntry \<Rightarrow> bool" where
  "sameEntryValues e1 e2 \<longleftrightarrow> file_path e1 = file_path e2 \<and> getValue e1 = getValue e2"

definition sameGroupValues :: "'v BasesEntryGroup \<Rightarrow> 'v BasesEntryGroup \<Rightarrow> bool" where
  "sameGroupValues g1 g2 \<longleftrightarrow>
     key g1 = key g2 \<and> hasKey g1 = hasKey g2
     \<and> list_all2 sameEntryValues (entries g1) (entries g2)"

definition sameMapValues :: "('k, 'v) jsmap \<Rightarrow> ('k, 'v) jsmap \<Rightarrow> bool" where
  "sameMapValues m1 m2 \<longleftrightarrow>
     distinct (map fst m1) \<and> distinct (map fst m2) \<and> set m1 = set m2"

definition sameRenderedEntry ::
  "('v \<Rightarrow> jsstring) \<Rightarrow> jsstring list \<Rightarrow> 'v BasesEntry \<Rightarrow> 'v BasesEntry \<Rightarrow> bool" where
  "sameRenderedEntry toStr tracked e1 e2 \<longleftrightarrow>
     file_path e1 = file_path e2
     \<and> list_all (\<lambda>p. map_option toStr (getValue e1 p) = map_option toStr (getValue e2 p))
           tracked"

definition sameRenderedGroup ::
  "('v \<Rightarrow> jsstring) \<Rightarrow> jsstring list \<Rightarrow> 'v BasesEntryGroup \<Rightarrow> 'v BasesEntryGroup \<Rightarrow> bool"
  where
  "sameRenderedGroup toStr tracked g1 g2 \<longleftrightarrow>
     getColumnKey toStr (key g1) = getColumnKey toStr (key g2)
     \<and> list_all2 (sameRenderedEntry toStr tracked) (entries g1) (entries g2)"

section \<open>An example board\<close>

abbreviation exampleEntry :: "nat \<Rightarrow> string \<Rightarrow> jsstring BasesEntry" where
  "exampleEntry i p \<equiv> \<lparr>objectId = i, file_path = lit p, getValue = (\<lambda>_. None)\<rparr>"

abbreviation exampleGroups :: "nat \<Rightarrow> jsstring BasesEntryGroup list" where
  "exampleGroups i \<equiv>
     [\<lparr>key = Some (lit ''todo''), hasKey = True, entries = [exampleEntry i ''a.md'']\<rparr>]"

abbreviation exampleSettings :: "int \<Rightarrow> int DisplaySettings" where
  "exampleSettings titleMaxLength \<equiv>
     \<lparr>cardTitleSource = lit ''basename'', cardTitleMaxLength = titleMaxLength,
      propertyValueSeparator = lit '', '', tagPropertySuffix = lit ''.tags'',
      tagSaturation = 80, tagLightness = 60, tagAlpha = 1\<rparr>"

abbreviation exampleInput :: "int \<Rightarrow> (jsstring, int) RenderInput" where
  "exampleInput titleMaxLength \<equiv>
     \<lparr>groupedData = exampleGroups 11, settings = exampleSettings titleMaxLength,
      localCardOrderConfig = [], selectedPropertiesOfData = [],
      detectedGroupByProperty = None, columnOrderConfig = [], boardElFound = True\<rparr>"

abbreviation exampleRendered :: ViewState where
  "exampleRendered \<equiv>
     \<lparr>hasRenderedBoard = True,
      lastRenderSignature =
        Some (computeRenderSignature (\<lambda>v. v) (intToString 10) (exampleGroups 11)
                (exampleSettings 60) [] [] None),
      lastColumnPathSnapshots = [(lit ''todo'', [lit ''a.md''])],
      pendingLocalScrollRevision = None, viewSessionId = lit ''s1''\<rparr>"

section \<open>Facts about the list primitives\<close>

lemma indexOf_absent: "x \<notin> set xs \<Longrightarrow> indexOf xs x = -1"
  by (induction xs) (auto simp: Let_def)

lemma spliceInsert_at_end: "spliceInsert xs (int (length xs)) items = xs @ items"
  by (simp add: spliceInsert_def)

lemma lit_eq_iff: "lit a = lit b \<longleftrightarrow> a = b"
proof -
  have "inj (\<lambda>c::char. (word_of_nat (of_char c) :: 16 word))"
  proof (rule injI)
    fix x y :: char
    assume h: "(word_of_nat (of_char x) :: 16 word) = word_of_nat (of_char y)"
    have bx: "(of_char x :: nat) < 2 ^ 16"
      by (rule less_trans [where y = 256]) simp_all
    have bz: "(of_char y :: nat) < 2 ^ 16"
      by (rule less_trans [where y = 256]) simp_all
    have "unat (word_of_nat (of_char x) :: 16 word) = unat (word_of_nat (of_char y) :: 16 word)"
      using h by simp
    then have "(of_char x :: nat) = of_char y"
      using bx bz by (simp add: unat_of_nat)
    then show "x = y" by simp
  qed
  then show ?thesis
    unfolding lit_def by (simp add: inj_map_eq_map)
qed

section \<open>Facts about merging\<close>

lemma set_firstOccurrences: "set (firstOccurrences xs) = set xs"
  by (induction xs) auto

lemma distinct_firstOccurrences: "distinct (firstOccurrences xs)"
  by (induction xs) (auto simp: set_firstOccurrences)

lemma mergeStep_keys:
  "map fst (mergeStep toStr g m) =
     (if getColumnKey toStr (key g) \<in> fst ` set m then map fst m
      else map fst m @ [getColumnKey toStr (key g)])"
  by (auto simp: mergeStep_def Let_def update_keys split: option.splits)

lemma mergeStep_dom:
  "fst ` set (mergeStep toStr g m) = insert (getColumnKey toStr (key g)) (fst ` set m)"
  by (simp add: mergeStep_def Let_def dom_update split: option.splits)

lemma merge_fold_keys:
  "map fst (fold (mergeStep toStr) gs m) =
     map fst m @ filter (\<lambda>k. k \<notin> fst ` set m)
       (firstOccurrences (map (\<lambda>g. getColumnKey toStr (key g)) gs))"
proof (induction gs arbitrary: m)
  case Nil
  show ?case by simp
next
  case (Cons g gs)
  let ?k = "getColumnKey toStr (key g)"
  let ?rest = "firstOccurrences (map (\<lambda>g. getColumnKey toStr (key g)) gs)"
  show ?case
  proof (cases "?k \<in> fst ` set m")
    case True
    have "filter (\<lambda>k. k \<notin> fst ` set m) (filter (\<lambda>y. y \<noteq> ?k) ?rest)
            = filter (\<lambda>k. k \<notin> fst ` set m) ?rest"
      using True by (auto simp: filter_filter intro: filter_cong)
    with True show ?thesis
      by (simp add: Cons.IH mergeStep_keys mergeStep_dom insert_absorb)
  next
    case False
    have eq: "fst ` set (mergeStep toStr g m) = insert ?k (fst ` set m)"
      by (rule mergeStep_dom)
    have "filter (\<lambda>k. k \<notin> insert ?k (fst ` set m)) ?rest
            = filter (\<lambda>k. k \<notin> fst ` set m) (filter (\<lambda>y. y \<noteq> ?k) ?rest)"
      by (auto simp: filter_filter intro: filter_cong)
    with False show ?thesis
      by (simp add: Cons.IH mergeStep_keys eq)
  qed
qed

lemma update_absent: "map_of m k = None \<Longrightarrow> AList.update k v m = m @ [(k, v)]"
  by (induction m) (auto split: if_splits)

lemma sum_update_present:
  fixes f :: "'b \<Rightarrow> nat"
  shows "map_of m k = Some e \<Longrightarrow>
    sum_list (map (\<lambda>p. f (snd p)) (AList.update k v m)) + f e
      = sum_list (map (\<lambda>p. f (snd p)) m) + f v"
  by (induction m) (auto split: if_splits)

lemma totalEntries_mergeStep:
  "totalEntries (map snd (mergeStep toStr g m)) = totalEntries (map snd m) + length (entries g)"
proof (cases "map_of m (getColumnKey toStr (key g))")
  case None
  then show ?thesis
    by (simp add: mergeStep_def totalEntries_def update_absent)
next
  case (Some e)
  from sum_update_present [OF Some, where f = "\<lambda>g. length (entries g)"
      and v = "e\<lparr>hasKey := hasKey e \<or> hasKey g, entries := entries e @ entries g\<rparr>"]
  show ?thesis
    using Some by (simp add: mergeStep_def totalEntries_def comp_def)
qed

lemma totalEntries_merge_fold:
  "totalEntries (map snd (fold (mergeStep toStr) gs m)) = totalEntries (map snd m) + totalEntries gs"
proof (induction gs arbitrary: m)
  case Nil
  show ?case by (simp add: totalEntries_def)
next
  case (Cons g gs)
  have "totalEntries (g # gs) = length (entries g) + totalEntries gs"
    by (simp add: totalEntries_def)
  then show ?case
    by (simp add: Cons.IH totalEntries_mergeStep)
qed

lemma map_of_mergeStep:
  "map_of (mergeStep toStr g m) k =
     (if k = getColumnKey toStr (key g)
      then (case map_of m k of
              None \<Rightarrow> Some \<lparr>key = key g, hasKey = hasKey g, entries = entries g\<rparr>
            | Some e \<Rightarrow> Some (e\<lparr>hasKey := hasKey e \<or> hasKey g, entries := entries e @ entries g\<rparr>))
      else map_of m k)"
  by (simp add: mergeStep_def Let_def update_conv' split: option.splits)

lemma merge_fold_key:
  "\<forall>k e. map_of m k = Some e \<longrightarrow> getColumnKey toStr (key e) = k \<Longrightarrow>
   map_of (fold (mergeStep toStr) gs m) k = Some e \<Longrightarrow> getColumnKey toStr (key e) = k"
proof (induction gs arbitrary: m)
  case Nil
  then show ?case by simp
next
  case (Cons g gs)
  have "\<forall>k e. map_of (mergeStep toStr g m) k = Some e \<longrightarrow> getColumnKey toStr (key e) = k"
    using Cons.prems(1) by (auto simp: map_of_mergeStep split: if_splits option.splits)
  from Cons.IH [OF this] Cons.prems(2) show ?case by simp
qed

lemma merge_fold_hasKey:
  "map_of (fold (mergeStep toStr) gs m) k = Some e \<Longrightarrow>
   hasKey e = ((\<exists>e0. map_of m k = Some e0 \<and> hasKey e0)
               \<or> (\<exists>g \<in> set gs. getColumnKey toStr (key g) = k \<and> hasKey g))"
proof (induction gs arbitrary: m)
  case Nil
  then show ?case by simp
next
  case (Cons g gs)
  from Cons.prems have "map_of (fold (mergeStep toStr) gs (mergeStep toStr g m)) k = Some e"
    by simp
  from Cons.IH [OF this] show ?case
    by (auto simp: map_of_mergeStep split: if_splits option.splits)
qed

section \<open>Facts about the snapshot diff\<close>

lemma fold_push:
  "fold (\<lambda>x acc. if P x then acc @ [f x] else acc) xs acc = acc @ map f (filter P xs)"
  by (induction xs arbitrary: acc) auto

lemma pathsDiffer_iff:
  "length currentPaths = length previousPaths \<Longrightarrow>
     pathsDiffer currentPaths previousPaths \<longleftrightarrow> currentPaths \<noteq> previousPaths"
proof -
  assume len: "length currentPaths = length previousPaths"
  have "(currentPaths = previousPaths)
          = (\<forall>i < length currentPaths. currentPaths ! i = previousPaths ! i)"
    using len by (subst list_eq_iff_nth_eq) simp
  then show ?thesis
    by (auto simp: pathsDiffer_def list_ex_iff)
qed

lemma findChangedColumns_filter:
  "findChangedColumns previous current =
     map fst (filter (\<lambda>(k, currentPaths). map_of previous k \<noteq> Some currentPaths) current)
     @ filter (\<lambda>k. map_of current k = None) (map fst previous)"
proof -
  have step: "(\<lambda>(k, currentPaths) changed.
                    case map_of previous k of
                      None \<Rightarrow> changed @ [k]
                    | Some previousPaths \<Rightarrow>
                        if length currentPaths \<noteq> length previousPaths then changed @ [k]
                        else if pathsDiffer currentPaths previousPaths then changed @ [k]
                        else changed)
      = (\<lambda>x acc. if (case x of (k, currentPaths) \<Rightarrow> map_of previous k \<noteq> Some currentPaths)
                   then acc @ [fst x] else acc)"
    by (auto simp: fun_eq_iff pathsDiffer_iff split: option.splits)
  have "fold (\<lambda>k changed. if map_of current k = None then changed @ [k] else changed)
           (map fst previous) acc
        = acc @ filter (\<lambda>k. map_of current k = None) (map fst previous)" for acc
    using fold_push [where f = "\<lambda>k. k" and P = "\<lambda>k. map_of current k = None"]
    by simp
  then show ?thesis
    unfolding findChangedColumns_def Let_def step fold_push by simp
qed

lemma map_filter_keys:
  "\<forall>x \<in> set xs. P x = Q (f x) \<Longrightarrow> map f (filter P xs) = filter Q (map f xs)"
  by (induction xs) auto

lemma findChangedColumns_keys:
  assumes "distinct (map fst current)"
  shows "findChangedColumns previous current =
     filter (\<lambda>k. map_of previous k \<noteq> map_of current k) (map fst current)
     @ filter (\<lambda>k. map_of current k = None) (map fst previous)"
proof -
  have "\<forall>x \<in> set current.
          (case x of (k, currentPaths) \<Rightarrow> map_of previous k \<noteq> Some currentPaths)
          = (map_of previous (fst x) \<noteq> map_of current (fst x))"
    using assms by auto
  from map_filter_keys [where f = fst and xs = current
      and Q = "\<lambda>k. map_of previous k \<noteq> map_of current k", OF this]
  show ?thesis
    by (simp add: findChangedColumns_filter)
qed

lemma filter_eq_single: "distinct xs \<Longrightarrow> k \<in> set xs \<Longrightarrow> filter (\<lambda>x. x = k) xs = [k]"
  by (induction xs) (auto simp: filter_empty_conv)

lemma distinct_fold_update:
  "distinct (map fst m) \<Longrightarrow>
     distinct (map fst (fold (\<lambda>x acc. AList.update (kf x) (vf x) acc) xs m))"
  by (induction xs arbitrary: m) (auto simp: distinct_update)

lemma distinct_computeColumnSnapshots:
  "distinct (map fst (computeColumnSnapshots toStr renderedGroups))"
  unfolding computeColumnSnapshots_def by (rule distinct_fold_update) simp

section \<open>Facts about the local card order\<close>

lemma map_of_fold_update:
  "map_of (fold (\<lambda>(k, v) m. AList.update k v m) pairs m) k =
     (case map_of (rev pairs) k of None \<Rightarrow> map_of m k | Some v \<Rightarrow> Some v)"
proof (induction pairs arbitrary: m)
  case Nil
  show ?case by simp
next
  case (Cons p pairs)
  obtain a b where p: "p = (a, b)" by (cases p)
  show ?case
    by (simp add: p Cons.IH update_conv' map_of_append map_add_def split: option.splits)
qed

lemma map_of_mapFromEntries: "map_of (mapFromEntries pairs) = map_of (rev pairs)"
  by (rule ext) (simp add: mapFromEntries_def map_of_fold_update split: option.splits)

lemma map_of_keyed: "map_of (map (\<lambda>e. (f e, e)) xs) p = find (\<lambda>e. f e = p) xs"
  by (induction xs) auto

lemma entryByPath_lookup:
  "map_of (mapFromEntries (map (\<lambda>entry. (file_path entry, entry)) es)) p
     = find (\<lambda>e. file_path e = p) (rev es)"
  by (simp add: map_of_mapFromEntries rev_map map_of_keyed)

lemma walk_saved:
  "fold (\<lambda>path (nextEntries, usedPaths).
           case E path of
             None \<Rightarrow> (nextEntries, usedPaths)
           | Some entry \<Rightarrow> (nextEntries @ [entry], path # usedPaths))
     ps (n0, u0)
   = (n0 @ List.map_filter E ps, rev (filter (\<lambda>p. E p \<noteq> None) ps) @ u0)"
  by (induction ps arbitrary: n0 u0) (auto simp: List.map_filter_simps split: option.splits)

section \<open>Facts about the signature\<close>

lemma map_eq_of_related:
  "list_all2 R xs ys \<Longrightarrow> (\<And>x y. R x y \<Longrightarrow> f x = f y) \<Longrightarrow> map f xs = map f ys"
  by (induction rule: list_all2_induct) auto

lemma sameGroupValues_rendered:
  "sameGroupValues g1 g2 \<Longrightarrow> sameRenderedGroup toStr tracked g1 g2"
  unfolding sameGroupValues_def sameRenderedGroup_def
  by (auto simp: sameEntryValues_def sameRenderedEntry_def list_all_iff
        elim!: list_all2_mono)

lemma valueStr_of_string_form:
  "map_option toStr a = map_option toStr b \<Longrightarrow>
     (case a of None \<Rightarrow> d | Some v \<Rightarrow> toStr v) = (case b of None \<Rightarrow> d | Some v \<Rightarrow> toStr v)"
  by (cases a; cases b) simp_all

lemma computePropertyValuesHash_rendered:
  assumes "list_all2 (sameRenderedGroup toStr props) groups1 groups2"
  shows "computePropertyValuesHash toStr groups1 props = computePropertyValuesHash toStr groups2 props"
proof -
  let ?part = "\<lambda>entry propertyId.
                 (let entryPath = file_path entry;
                      valueStr = (case getValue entry propertyId of
                                    None \<Rightarrow> lit ''__null__''
                                  | Some v \<Rightarrow> toStr v)
                  in entryPath @ lit '':'' @ propertyId @ lit ''='' @ valueStr)"
  let ?ofEntry = "\<lambda>entry. map (?part entry) props"
  let ?ofGroup = "\<lambda>grp. concat (map ?ofEntry (entries grp))"
  have entry: "?ofEntry e1 = ?ofEntry e2" if h: "sameRenderedEntry toStr props e1 e2" for e1 e2
  proof (rule map_cong [OF refl])
    fix p assume "p \<in> set props"
    with h have "map_option toStr (getValue e1 p) = map_option toStr (getValue e2 p)"
      by (simp add: sameRenderedEntry_def list_all_iff)
    from valueStr_of_string_form [OF this, of "lit ''__null__''"] h
    show "?part e1 p = ?part e2 p"
      by (simp add: sameRenderedEntry_def)
  qed
  have grp: "?ofGroup g1 = ?ofGroup g2" if "sameRenderedGroup toStr props g1 g2" for g1 g2
  proof -
    from that have "list_all2 (sameRenderedEntry toStr props) (entries g1) (entries g2)"
      by (simp add: sameRenderedGroup_def)
    then have "map ?ofEntry (entries g1) = map ?ofEntry (entries g2)"
      by (rule map_eq_of_related) (rule entry)
    then show ?thesis by simp
  qed
  from assms have "map ?ofGroup groups1 = map ?ofGroup groups2"
    by (rule map_eq_of_related) (rule grp)
  then show ?thesis
    unfolding computePropertyValuesHash_def by simp
qed

lemma computeRenderSignature_rendered:
  assumes "list_all2
             (sameRenderedGroup toStr
                (filter (\<lambda>propertyId. propertyId \<noteq> lit ''file.name''
                           \<and> Some propertyId \<noteq> groupByProperty) selectedProperties))
             groups1 groups2"
  shows "computeRenderSignature toStr jsonNumber groups1 displaySettings localCardOrderByColumn
           selectedProperties groupByProperty
         = computeRenderSignature toStr jsonNumber groups2 displaySettings localCardOrderByColumn
           selectedProperties groupByProperty"
proof -
  have keys: "map (\<lambda>g. getColumnKey toStr (key g)) groups1
                = map (\<lambda>g. getColumnKey toStr (key g)) groups2"
    using assms by (rule map_eq_of_related) (simp add: sameRenderedGroup_def)
  have paths1: "map file_path (entries g1) = map file_path (entries g2)"
    if "sameRenderedGroup toStr tracked g1 g2" for g1 g2 :: "'a BasesEntryGroup" and tracked
  proof -
    from that have "list_all2 (sameRenderedEntry toStr tracked) (entries g1) (entries g2)"
      by (simp add: sameRenderedGroup_def)
    then show ?thesis
      by (rule map_eq_of_related) (simp add: sameRenderedEntry_def)
  qed
  from assms have paths: "map (\<lambda>g. map file_path (entries g)) groups1
                  = map (\<lambda>g. map file_path (entries g)) groups2"
    by (rule map_eq_of_related) (rule paths1)
  show ?thesis
    unfolding computeRenderSignature_def Let_def keys paths
      computePropertyValuesHash_rendered [OF assms]
    by (rule refl)
qed

lemma example_map_order:
  "stringifyMapEntries [(lit ''todo'', [lit ''a.md'']), (lit ''done'', [lit ''b.md''])]
   \<noteq> stringifyMapEntries [(lit ''done'', [lit ''b.md'']), (lit ''todo'', [lit ''a.md''])]"
  by (simp add: stringifyMapEntries_def quoteJSONString_def jsonEscapeUnit_def
        isLeadSurrogate_def isTrailSurrogate_def lit_def)

section \<open>Facts about the view\<close>

lemma render_flag_mono:
  "hasRenderedBoard s \<Longrightarrow> hasRenderedBoard (snd (render toStr jsonNumber cfg s inp))"
  by (simp add: render_def Let_def)

lemma render_full_sets_flag:
  "fst (render toStr jsonNumber cfg s inp) = FullRender \<Longrightarrow>
     hasRenderedBoard (snd (render toStr jsonNumber cfg s inp))"
  by (auto simp: render_def Let_def split: if_splits)

lemma skip_check_flag:
  "hasRenderedBoard (snd (shouldSkipRenderForOwnScrollUpdate s scrollState)) = hasRenderedBoard s"
  by (simp add: shouldSkipRenderForOwnScrollUpdate_def split: option.splits)

lemma onDataUpdated_flag_mono:
  "hasRenderedBoard s \<Longrightarrow>
     hasRenderedBoard (snd (onDataUpdated toStr jsonNumber cfg s scrollState inp))"
proof -
  assume h: "hasRenderedBoard s"
  obtain b s' where sk: "shouldSkipRenderForOwnScrollUpdate s scrollState = (b, s')"
    by (cases "shouldSkipRenderForOwnScrollUpdate s scrollState")
  with skip_check_flag [of s scrollState] h have "hasRenderedBoard s'" by simp
  then show ?thesis
    by (cases b) (simp_all add: onDataUpdated_def sk render_flag_mono)
qed

lemma viewStep_flag_mono:
  "hasRenderedBoard s \<Longrightarrow> hasRenderedBoard (viewStep toStr jsonNumber cfg s op)"
  by (cases op) (simp_all add: viewStep_def onDataUpdated_flag_mono)

lemma runView_flag_mono:
  "hasRenderedBoard s \<Longrightarrow> hasRenderedBoard (runView toStr jsonNumber cfg s ops)"
  unfolding runView_def
  by (induction ops arbitrary: s) (simp_all add: viewStep_flag_mono)

lemma example_merge:
  "mergeGroupsByColumnKey (\<lambda>v. v) (exampleGroups i) = exampleGroups i"
  by (simp add: mergeGroupsByColumnKey_def mergeStep_def Let_def)

lemma example_snapshot:
  "computeColumnSnapshots (\<lambda>v. v)
     (buildRenderedGroups (\<lambda>v. v) (sortGroupsByColumnOrder (\<lambda>v. v) (exampleGroups i) []) [])
     = [(lit ''todo'', [lit ''a.md''])]"
  by (simp add: computeColumnSnapshots_def buildRenderedGroups_def sortGroupsByColumnOrder_def
        applyLocalCardOrder_def getColumnKey_def)

lemma example_first_render:
  "render (\<lambda>v. v) (intToString 10) (\<lambda>_. True) (initialView (lit ''s1'')) (exampleInput 60)
   = (FullRender, exampleRendered)"
  unfolding render_def Let_def
  by (simp add: example_merge example_snapshot [simplified] canSkipFullRender_def
        canRenderPartially_def initialView_def)

lemma example_signature_differs:
  "computeRenderSignature (\<lambda>v. v) (intToString 10) (exampleGroups 11) (exampleSettings 60) [] [] None
   \<noteq> computeRenderSignature (\<lambda>v. v) (intToString 10) (exampleGroups 11) (exampleSettings 80)
       [] [] None"
  by (simp add: computeRenderSignature_def stringifyDisplaySettings_def intToString_def
        natToRadix.simps digitChar_def)

lemma example_diff_empty:
  "findChangedColumns (lastColumnPathSnapshots exampleRendered)
     (computeColumnSnapshots (\<lambda>v. v)
        (buildRenderedGroups (\<lambda>v. v)
           (sortGroupsByColumnOrder (\<lambda>v. v)
              (mergeGroupsByColumnKey (\<lambda>v. v) (groupedData (exampleInput 80)))
              (columnOrderConfig (exampleInput 80)))
           (localCardOrderConfig (exampleInput 80)))) = []"
  by (simp add: example_merge example_snapshot [simplified] findChangedColumns_def
        pathsDiffer_def)

section \<open>Claims\<close>

text \<open>
  C1 (as amended). In the render planner, when a prior render exists and the signature
  differs from the previous one but the diff between the previous and the current column
  snapshots is empty, canRenderPartially reports canPartial false with no changed column
  and the structural path is not skipped: render rebuilds the whole board (a full
  render), or renders the placeholder when no group-by is configured.
\<close>

theorem render_diff_empty_not_skipped:
  assumes rendered: "hasRenderedBoard s"
    and sig: "lastRenderSignature s \<noteq>
                Some (computeRenderSignature toStr jsonNumber
                        (mergeGroupsByColumnKey toStr (groupedData inp)) (settings inp)
                        (localCardOrderConfig inp) (selectedPropertiesOfData inp)
                        (detectedGroupByProperty inp))"
    and diff: "findChangedColumns (lastColumnPathSnapshots s)
                 (computeColumnSnapshots toStr
                    (buildRenderedGroups toStr
                       (sortGroupsByColumnOrder toStr
                          (mergeGroupsByColumnKey toStr (groupedData inp))
                          (columnOrderConfig inp))
                       (localCardOrderConfig inp))) = []"
  shows "canRenderPartially toStr
           (buildRenderedGroups toStr
              (sortGroupsByColumnOrder toStr
                 (mergeGroupsByColumnKey toStr (groupedData inp))
                 (columnOrderConfig inp))
              (localCardOrderConfig inp))
           (lastColumnPathSnapshots s) (hasRenderedBoard s)
           = \<lparr>canPartial = False, changedColumns = []\<rparr>
    \<and> fst (render toStr jsonNumber hasConfiguredGroupBy s inp)
        = (if hasConfiguredGroupBy (mergeGroupsByColumnKey toStr (groupedData inp))
           then FullRender else PlaceholderRender)"
proof -
  have part: "canRenderPartially toStr
           (buildRenderedGroups toStr
              (sortGroupsByColumnOrder toStr
                 (mergeGroupsByColumnKey toStr (groupedData inp))
                 (columnOrderConfig inp))
              (localCardOrderConfig inp))
           (lastColumnPathSnapshots s) (hasRenderedBoard s)
           = \<lparr>canPartial = False, changedColumns = []\<rparr>"
    using diff by (simp add: canRenderPartially_def Let_def)
  have noskip: "\<not> canSkipFullRender
            (computeRenderSignature toStr jsonNumber
               (mergeGroupsByColumnKey toStr (groupedData inp)) (settings inp)
               (localCardOrderConfig inp) (selectedPropertiesOfData inp)
               (detectedGroupByProperty inp))
            (lastRenderSignature s) (hasRenderedBoard s)"
    using sig by (auto simp: canSkipFullRender_def)
  show ?thesis
    using part noskip by (simp add: render_def Let_def)
qed

theorem render_diff_empty_not_skipped_witness:
  "fst (render (\<lambda>v. v) (intToString 10) (\<lambda>_. True) exampleRendered (exampleInput 80))
     = FullRender
   \<and> fst (render (\<lambda>v. v) (intToString 10) (\<lambda>_. False) exampleRendered (exampleInput 80))
     = PlaceholderRender"
proof -
  have sig: "lastRenderSignature exampleRendered
       \<noteq> Some (computeRenderSignature (\<lambda>v. v) (intToString 10)
                 (mergeGroupsByColumnKey (\<lambda>v. v) (groupedData (exampleInput 80)))
                 (settings (exampleInput 80)) (localCardOrderConfig (exampleInput 80))
                 (selectedPropertiesOfData (exampleInput 80))
                 (detectedGroupByProperty (exampleInput 80)))"
    using example_signature_differs by (simp add: example_merge)
  have rendered: "hasRenderedBoard exampleRendered" by simp
  from render_diff_empty_not_skipped
      [OF rendered sig example_diff_empty, where hasConfiguredGroupBy = "\<lambda>_. True"]
    render_diff_empty_not_skipped
      [OF rendered sig example_diff_empty, where hasConfiguredGroupBy = "\<lambda>_. False"]
  show ?thesis by simp
qed

text \<open>
  C1 as stated fails: after a first full render of the example board, a data update that
  changes only the card title length setting changes the signature and no column
  snapshot, and the decision is a full render, not a skip.
\<close>

theorem render_diff_empty_counterexample:
  "fst (render (\<lambda>v. v) (intToString 10) (\<lambda>_. True) (initialView (lit ''s1''))
          (exampleInput 60)) = FullRender
   \<and> snd (render (\<lambda>v. v) (intToString 10) (\<lambda>_. True) (initialView (lit ''s1''))
          (exampleInput 60)) = exampleRendered
   \<and> hasRenderedBoard exampleRendered
   \<and> lastRenderSignature exampleRendered
       \<noteq> Some (computeRenderSignature (\<lambda>v. v) (intToString 10)
                 (mergeGroupsByColumnKey (\<lambda>v. v) (groupedData (exampleInput 80)))
                 (settings (exampleInput 80)) (localCardOrderConfig (exampleInput 80))
                 (selectedPropertiesOfData (exampleInput 80))
                 (detectedGroupByProperty (exampleInput 80)))
   \<and> findChangedColumns (lastColumnPathSnapshots exampleRendered)
       (computeColumnSnapshots (\<lambda>v. v)
          (buildRenderedGroups (\<lambda>v. v)
             (sortGroupsByColumnOrder (\<lambda>v. v)
                (mergeGroupsByColumnKey (\<lambda>v. v) (groupedData (exampleInput 80)))
                (columnOrderConfig (exampleInput 80)))
             (localCardOrderConfig (exampleInput 80)))) = []
   \<and> fst (render (\<lambda>v. v) (intToString 10) (\<lambda>_. True) exampleRendered (exampleInput 80))
       = FullRender
   \<and> fst (render (\<lambda>v. v) (intToString 10) (\<lambda>_. True) exampleRendered (exampleInput 80))
       \<noteq> SkippedFullRender"
proof -
  have sig: "lastRenderSignature exampleRendered
       \<noteq> Some (computeRenderSignature (\<lambda>v. v) (intToString 10)
                 (mergeGroupsByColumnKey (\<lambda>v. v) (groupedData (exampleInput 80)))
                 (settings (exampleInput 80)) (localCardOrderConfig (exampleInput 80))
                 (selectedPropertiesOfData (exampleInput 80))
                 (detectedGroupByProperty (exampleInput 80)))"
    using example_signature_differs by (simp add: example_merge)
  have full: "fst (render (\<lambda>v. v) (intToString 10) (\<lambda>_. True) exampleRendered (exampleInput 80))
       = FullRender"
    using sig example_diff_empty
    by (simp add: render_def Let_def canSkipFullRender_def canRenderPartially_def)
  show ?thesis
    using sig full example_diff_empty by (simp add: example_first_render)
qed

text \<open>
  C2. For every list of groups, mergeGroupsByColumnKey returns groups whose normalized
  column keys are pairwise distinct, whose total entry count equals the total entry count
  of the input, whose order is the order of the first occurrence of each column key in
  the input, and where the hasKey flag of each merged group is the disjunction of the
  hasKey flags of the input groups with that column key.
\<close>

theorem mergeGroupsByColumnKey_correct:
  fixes toStr :: "'v \<Rightarrow> jsstring" and groups :: "'v BasesEntryGroup list"
  defines "columnKey \<equiv> (\<lambda>g. getColumnKey toStr (key g))"
  shows "distinct (map columnKey (mergeGroupsByColumnKey toStr groups))
    \<and> totalEntries (mergeGroupsByColumnKey toStr groups) = totalEntries groups
    \<and> map columnKey (mergeGroupsByColumnKey toStr groups)
        = firstOccurrences (map columnKey groups)
    \<and> (\<forall>m \<in> set (mergeGroupsByColumnKey toStr groups).
          hasKey m = (\<exists>g \<in> set groups. columnKey g = columnKey m \<and> hasKey g))"
proof -
  let ?M = "fold (mergeStep toStr) groups []"
  have keys: "map fst ?M = firstOccurrences (map columnKey groups)"
    by (simp add: merge_fold_keys columnKey_def)
  then have dist: "distinct (map fst ?M)"
    by (simp add: distinct_firstOccurrences)
  have keyed: "columnKey e = k" if "(k, e) \<in> set ?M" for k e
  proof -
    from that dist have "map_of ?M k = Some e" by simp
    then show ?thesis
      unfolding columnKey_def by (rule merge_fold_key [rotated]) simp
  qed
  have same: "map columnKey (mergeGroupsByColumnKey toStr groups) = map fst ?M"
    using keyed by (auto simp: mergeGroupsByColumnKey_def)
  have hk: "hasKey e = (\<exists>g \<in> set groups. columnKey g = columnKey e \<and> hasKey g)"
    if "e \<in> set (mergeGroupsByColumnKey toStr groups)" for e
  proof -
    from that obtain k where in_M: "(k, e) \<in> set ?M"
      by (auto simp: mergeGroupsByColumnKey_def)
    with dist have "map_of ?M k = Some e" by simp
    from merge_fold_hasKey [OF this] keyed [OF in_M] show ?thesis
      by (simp add: columnKey_def)
  qed
  have total: "totalEntries (mergeGroupsByColumnKey toStr groups) = totalEntries groups"
    unfolding mergeGroupsByColumnKey_def totalEntries_merge_fold
    by (simp add: totalEntries_def)
  from same keys dist hk total show ?thesis
    by (simp add: distinct_firstOccurrences)
qed

theorem mergeGroupsByColumnKey_correct_witness:
  "map (\<lambda>g. getColumnKey (\<lambda>v. v) (key g))
     (mergeGroupsByColumnKey (\<lambda>v. v)
       [\<lparr>key = Some (lit ''todo''), hasKey = False,
          entries = [\<lparr>objectId = 1, file_path = lit ''a.md'', getValue = (\<lambda>_. None)\<rparr>]\<rparr>,
        \<lparr>key = None, hasKey = False,
          entries = [\<lparr>objectId = 2, file_path = lit ''c.md'', getValue = (\<lambda>_. None)\<rparr>]\<rparr>,
        \<lparr>key = Some (lit ''todo''), hasKey = True,
          entries = [\<lparr>objectId = 3, file_path = lit ''b.md'', getValue = (\<lambda>_. None)\<rparr>]\<rparr>])
     = [lit ''todo'', lit ''__bases_kanban_no_value__'']
   \<and> totalEntries
     (mergeGroupsByColumnKey (\<lambda>v. v)
       [\<lparr>key = Some (lit ''todo''), hasKey = False,
          entries = [\<lparr>objectId = 1, file_path = lit ''a.md'', getValue = (\<lambda>_. None)\<rparr>]\<rparr>,
        \<lparr>key = None, hasKey = False,
          entries = [\<lparr>objectId = 2, file_path = lit ''c.md'', getValue = (\<lambda>_. None)\<rparr>]\<rparr>,
        \<lparr>key = Some (lit ''todo''), hasKey = True,
          entries = [\<lparr>objectId = 3, file_path = lit ''b.md'', getValue = (\<lambda>_. None)\<rparr>]\<rparr>])
     = 3
   \<and> map hasKey
     (mergeGroupsByColumnKey (\<lambda>v. v)
       [\<lparr>key = Some (lit ''todo''), hasKey = False,
          entries = [\<lparr>objectId = 1, file_path = lit ''a.md'', getValue = (\<lambda>_. None)\<rparr>]\<rparr>,
        \<lparr>key = None, hasKey = False,
          entries = [\<lparr>objectId = 2, file_path = lit ''c.md'', getValue = (\<lambda>_. None)\<rparr>]\<rparr>,
        \<lparr>key = Some (lit ''todo''), hasKey = True,
          entries = [\<lparr>objectId = 3, file_path = lit ''b.md'', getValue = (\<lambda>_. None)\<rparr>]\<rparr>])
     = [True, False]"
  using mergeGroupsByColumnKey_correct
    [of "\<lambda>v. v"
       "[\<lparr>key = Some (lit ''todo''), hasKey = False,
          entries = [\<lparr>objectId = 1, file_path = lit ''a.md'', getValue = (\<lambda>_. None)\<rparr>]\<rparr>,
        \<lparr>key = None, hasKey = False,
          entries = [\<lparr>objectId = 2, file_path = lit ''c.md'', getValue = (\<lambda>_. None)\<rparr>]\<rparr>,
        \<lparr>key = Some (lit ''todo''), hasKey = True,
          entries = [\<lparr>objectId = 3, file_path = lit ''b.md'', getValue = (\<lambda>_. None)\<rparr>]\<rparr>]"]
  by (simp add: mergeGroupsByColumnKey_def mergeStep_def getColumnKey_def totalEntries_def
        Let_def lit_eq_iff)

text \<open>
  C3 (as amended). For every column key, entry list and saved-order map,
  applyLocalCardOrder emits the records of the saved identifiers that are still present
  in the entry list, in saved order (a saved identifier with no matching entry is
  skipped; the record of an identifier is the last entry with that path), and puts all
  the entries that the saved list does not mention ahead of them, in their original
  relative order. In particular, with saved order \<open>[B, A]\<close> and current entries
  \<open>[A, B, C]\<close> the result is \<open>[C, B, A]\<close>.
\<close>

theorem applyLocalCardOrder_correct:
  fixes es :: "'v BasesEntry list"
  defines "saved \<equiv> (\<lambda>localOrder columnKey.
             case map_of localOrder columnKey of None \<Rightarrow> [] | Some orderedPaths \<Rightarrow> orderedPaths)"
  shows "applyLocalCardOrder columnKey es localOrder
           = filter (\<lambda>e. file_path e \<notin> set (saved localOrder columnKey)) es
             @ List.map_filter (\<lambda>p. find (\<lambda>e. file_path e = p) (rev es))
                 (saved localOrder columnKey)
    \<and> (file_path a = lit ''A'' \<and> file_path b = lit ''B'' \<and> file_path c = lit ''C''
         \<longrightarrow> applyLocalCardOrder columnKey [a, b, c] [(columnKey, [lit ''B'', lit ''A''])]
               = [c, b, a])"
proof
  show "applyLocalCardOrder columnKey es localOrder
           = filter (\<lambda>e. file_path e \<notin> set (saved localOrder columnKey)) es
             @ List.map_filter (\<lambda>p. find (\<lambda>e. file_path e = p) (rev es))
                 (saved localOrder columnKey)"
  proof (cases "map_of localOrder columnKey")
    case None
    then show ?thesis
      by (simp add: applyLocalCardOrder_def saved_def List.map_filter_simps)
  next
    case (Some ps)
    let ?E = "\<lambda>p. find (\<lambda>e. file_path e = p) (rev es)"
    have new: "filter (\<lambda>e. file_path e \<notin> set (rev (filter (\<lambda>p. ?E p \<noteq> None) ps) @ [])) es
                 = filter (\<lambda>e. file_path e \<notin> set ps) es"
      by (rule filter_cong) (auto simp: find_None_iff)
    show ?thesis
    proof (cases "ps = []")
      case True
      with Some show ?thesis
        by (simp add: applyLocalCardOrder_def saved_def List.map_filter_simps)
    next
      case False
      have "applyLocalCardOrder columnKey es localOrder
              = filter (\<lambda>e. file_path e \<notin> set (rev (filter (\<lambda>p. ?E p \<noteq> None) ps) @ [])) es
                @ ([] @ List.map_filter ?E ps)"
        using Some False
        unfolding applyLocalCardOrder_def Let_def entryByPath_lookup walk_saved
        by simp
      with Some show ?thesis
        unfolding new by (simp add: saved_def)
    qed
  qed
next
  show "file_path a = lit ''A'' \<and> file_path b = lit ''B'' \<and> file_path c = lit ''C''
         \<longrightarrow> applyLocalCardOrder columnKey [a, b, c] [(columnKey, [lit ''B'', lit ''A''])]
               = [c, b, a]"
    by (simp add: applyLocalCardOrder_def mapFromEntries_def lit_eq_iff)
qed

theorem applyLocalCardOrder_correct_witness:
  "map file_path
     (applyLocalCardOrder (lit ''todo'')
        [\<lparr>objectId = 1, file_path = lit ''A'', getValue = (\<lambda>_. (None :: jsstring option))\<rparr>,
         \<lparr>objectId = 2, file_path = lit ''B'', getValue = (\<lambda>_. None)\<rparr>,
         \<lparr>objectId = 3, file_path = lit ''C'', getValue = (\<lambda>_. None)\<rparr>]
        [(lit ''todo'', [lit ''B'', lit ''Z'', lit ''A''])])
     = [lit ''C'', lit ''B'', lit ''A'']"
  using applyLocalCardOrder_correct
    [where columnKey = "lit ''todo''"
       and es = "[\<lparr>objectId = 1, file_path = lit ''A'', getValue = (\<lambda>_. (None :: jsstring option))\<rparr>,
                 \<lparr>objectId = 2, file_path = lit ''B'', getValue = (\<lambda>_. None)\<rparr>,
                 \<lparr>objectId = 3, file_path = lit ''C'', getValue = (\<lambda>_. None)\<rparr>]"
       and localOrder = "[(lit ''todo'', [lit ''B'', lit ''Z'', lit ''A''])]"
       and a = "\<lparr>objectId = 1, file_path = lit ''A'', getValue = (\<lambda>_. (None :: jsstring option))\<rparr>"
       and b = "\<lparr>objectId = 2, file_path = lit ''B'', getValue = (\<lambda>_. None)\<rparr>"
       and c = "\<lparr>objectId = 3, file_path = lit ''C'', getValue = (\<lambda>_. None)\<rparr>"]
  by (simp add: List.map_filter_simps lit_eq_iff)

text \<open>
  C3 as stated fails in its example: with saved order \<open>[B, A]\<close> and current entries
  \<open>[A, B, C]\<close> the result is \<open>[C, B, A]\<close> (the saved order after the new entry), not
  \<open>[C, A, B]\<close>.
\<close>

theorem applyLocalCardOrder_example_counterexample:
  "map file_path
     (applyLocalCardOrder (lit ''todo'')
        [\<lparr>objectId = 1, file_path = lit ''A'', getValue = (\<lambda>_. (None :: jsstring option))\<rparr>,
         \<lparr>objectId = 2, file_path = lit ''B'', getValue = (\<lambda>_. None)\<rparr>,
         \<lparr>objectId = 3, file_path = lit ''C'', getValue = (\<lambda>_. None)\<rparr>]
        [(lit ''todo'', [lit ''B'', lit ''A''])])
     = [lit ''C'', lit ''B'', lit ''A'']
   \<and> map file_path
     (applyLocalCardOrder (lit ''todo'')
        [\<lparr>objectId = 1, file_path = lit ''A'', getValue = (\<lambda>_. (None :: jsstring option))\<rparr>,
         \<lparr>objectId = 2, file_path = lit ''B'', getValue = (\<lambda>_. None)\<rparr>,
         \<lparr>objectId = 3, file_path = lit ''C'', getValue = (\<lambda>_. None)\<rparr>]
        [(lit ''todo'', [lit ''B'', lit ''A''])])
     \<noteq> [lit ''C'', lit ''A'', lit ''B'']"
  by (simp add: applyLocalCardOrder_def mapFromEntries_def lit_eq_iff)

text \<open>
  C4. For all signature strings current and previous (previous possibly absent) and every
  boolean hasRenderedBoard, canSkipFullRender returns true if and only if hasRenderedBoard
  is true, a previous signature exists, and the previous signature string-equals the
  current one; in particular it returns false whenever hasRenderedBoard is false, whatever
  the signatures are.
\<close>

theorem canSkipFullRender_iff:
  "canSkipFullRender current previous hasRendered
     = (hasRendered \<and> previous \<noteq> None \<and> the previous = current)
   \<and> canSkipFullRender current previous False = False"
  by (cases previous) (auto simp: canSkipFullRender_def)

theorem canSkipFullRender_iff_witness:
  "canSkipFullRender (lit ''sig'') (Some (lit ''sig'')) True = True
   \<and> canSkipFullRender (lit ''sig'') (Some (lit ''old'')) True = False
   \<and> canSkipFullRender (lit ''sig'') None True = False
   \<and> canSkipFullRender (lit ''sig'') (Some (lit ''sig'')) False = False"
  using canSkipFullRender_iff [of "lit ''sig''" "Some (lit ''sig'')" True]
    canSkipFullRender_iff [of "lit ''sig''" "Some (lit ''old'')" True]
    canSkipFullRender_iff [of "lit ''sig''" None True]
    canSkipFullRender_iff [of "lit ''sig''" "Some (lit ''sig'')" False]
  by (simp add: lit_eq_iff)

text \<open>
  C5. For every list of rendered groups and previous snapshot whose sets of column keys
  differ (some key is in one snapshot and not in the other), canRenderPartially returns
  canPartial false, however few columns changed. The previous snapshot is a \<open>Map\<close>: its
  keys are distinct.
\<close>

theorem canRenderPartially_structure_changed:
  assumes dl: "distinct (map fst lastSnapshots)"
    and differ: "fst ` set (computeColumnSnapshots toStr renderedGroups)
                   \<noteq> fst ` set lastSnapshots"
  shows "canPartial (canRenderPartially toStr renderedGroups lastSnapshots hasRendered)
           = False"
proof -
  let ?cur = "computeColumnSnapshots toStr renderedGroups"
  let ?last = "lastSnapshots"
  let ?changed = "findChangedColumns ?last ?cur"
  have dc: "distinct (map fst ?cur)"
    by (rule distinct_computeColumnSnapshots)
  have changedStructure: "length ?cur \<noteq> length ?last
                   \<or> list_ex (\<lambda>k. map_of ?last k = None) ?changed"
  proof (cases "fst ` set ?cur \<subseteq> fst ` set ?last")
    case True
    with differ have "fst ` set ?cur \<subset> fst ` set ?last" by blast
    then have "card (fst ` set ?cur) < card (fst ` set ?last)"
      by (simp add: psubset_card_mono)
    moreover have "card (fst ` set ?cur) = length ?cur"
      using distinct_card [OF dc] by simp
    moreover have "card (fst ` set ?last) = length ?last"
      using distinct_card [OF dl] by simp
    ultimately show ?thesis by simp
  next
    case False
    then obtain k where kc: "k \<in> fst ` set ?cur" and kl: "k \<notin> fst ` set ?last"
      by blast
    from kl have none: "map_of ?last k = None"
      by (simp add: map_of_eq_None_iff)
    from kc have "map_of ?cur k \<noteq> None"
      by (simp add: map_of_eq_None_iff)
    with none kc have "k \<in> set ?changed"
      by (auto simp: findChangedColumns_keys [OF dc])
    with none show ?thesis
      by (auto simp: list_ex_iff)
  qed
  then show ?thesis
    by (auto simp: canRenderPartially_def Let_def)
qed

theorem canRenderPartially_structure_changed_witness:
  "distinct (map fst [(lit ''todo'', [lit ''a.md'']), (lit ''done'', [])])
   \<and> lit ''doing'' \<in> fst ` set (computeColumnSnapshots (\<lambda>v. v)
        [\<lparr>rg_group = \<lparr>key = Some (lit ''todo''), hasKey = True, entries = []\<rparr>,
          rg_entries = [\<lparr>objectId = 1, file_path = lit ''a.md'', getValue = (\<lambda>_. None)\<rparr>]\<rparr>,
         \<lparr>rg_group = \<lparr>key = Some (lit ''doing''), hasKey = True, entries = []\<rparr>,
          rg_entries = []\<rparr>])
   \<and> lit ''doing'' \<notin> fst ` set [(lit ''todo'', [lit ''a.md'']), (lit ''done'', [])]
   \<and> length (findChangedColumns [(lit ''todo'', [lit ''a.md'']), (lit ''done'', [])]
        (computeColumnSnapshots (\<lambda>v. v)
        [\<lparr>rg_group = \<lparr>key = Some (lit ''todo''), hasKey = True, entries = []\<rparr>,
          rg_entries = [\<lparr>objectId = 1, file_path = lit ''a.md'', getValue = (\<lambda>_. None)\<rparr>]\<rparr>,
         \<lparr>rg_group = \<lparr>key = Some (lit ''doing''), hasKey = True, entries = []\<rparr>,
          rg_entries = []\<rparr>])) = 2
   \<and> canPartial (canRenderPartially (\<lambda>v. v)
        [\<lparr>rg_group = \<lparr>key = Some (lit ''todo''), hasKey = True, entries = []\<rparr>,
          rg_entries = [\<lparr>objectId = 1, file_path = lit ''a.md'', getValue = (\<lambda>_. None)\<rparr>]\<rparr>,
         \<lparr>rg_group = \<lparr>key = Some (lit ''doing''), hasKey = True, entries = []\<rparr>,
          rg_entries = []\<rparr>]
        [(lit ''todo'', [lit ''a.md'']), (lit ''done'', [])] True) = False"
proof -
  let ?last = "[(lit ''todo'', [lit ''a.md'']), (lit ''done'', [])] :: ColumnSnapshot"
  let ?rgs = "[\<lparr>rg_group = \<lparr>key = Some (lit ''todo''), hasKey = True, entries = []\<rparr>,
          rg_entries = [\<lparr>objectId = 1, file_path = lit ''a.md'', getValue = (\<lambda>_. None)\<rparr>]\<rparr>,
         \<lparr>rg_group = \<lparr>key = Some (lit ''doing''), hasKey = True, entries = []\<rparr>,
          rg_entries = []\<rparr>] :: jsstring RenderedGroup list"
  have snap: "computeColumnSnapshots (\<lambda>v. v) ?rgs = [(lit ''todo'', [lit ''a.md'']), (lit ''doing'', [])]"
    by (simp add: computeColumnSnapshots_def getColumnKey_def lit_eq_iff)
  have d: "distinct (map fst ?last)"
    by (simp add: lit_eq_iff)
  have inc: "lit ''doing'' \<in> fst ` set (computeColumnSnapshots (\<lambda>v. v) ?rgs)"
    unfolding snap by simp
  have notl: "lit ''doing'' \<notin> fst ` set ?last"
    by (simp add: lit_eq_iff)
  from inc notl have differ: "fst ` set (computeColumnSnapshots (\<lambda>v. v) ?rgs) \<noteq> fst ` set ?last"
    by blast
  have two: "length (findChangedColumns ?last (computeColumnSnapshots (\<lambda>v. v) ?rgs)) = 2"
    unfolding snap by (simp add: findChangedColumns_def pathsDiffer_def lit_eq_iff)
  from canRenderPartially_structure_changed [OF d differ, of True] d inc notl two
  show ?thesis by blast
qed

text \<open>
  C6. findChangedColumns applied to two identical snapshots returns the empty list;
  applied to two snapshots that agree on every column except one, whose ordered
  identifier list differs, it returns exactly that column key; and the result lists the
  new and the modified columns in the iteration order of the current snapshot, then the
  removed columns in the iteration order of the previous one. Snapshots are \<open>Map\<close>s:
  their keys are distinct.
\<close>

theorem findChangedColumns_correct:
  assumes dp: "distinct (map fst previous)" and dc: "distinct (map fst current)"
  shows "findChangedColumns current current = []
    \<and> (\<forall>k previousPaths currentPaths.
          map_of previous k = Some previousPaths \<and> map_of current k = Some currentPaths
          \<and> previousPaths \<noteq> currentPaths
          \<and> (\<forall>k'. k' \<noteq> k \<longrightarrow> map_of previous k' = map_of current k')
          \<longrightarrow> findChangedColumns previous current = [k])
    \<and> findChangedColumns previous current
        = filter (\<lambda>k. map_of previous k \<noteq> map_of current k) (map fst current)
          @ filter (\<lambda>k. map_of current k = None) (map fst previous)"
proof (intro conjI allI impI)
  have "filter (\<lambda>k. map_of current k = None) (map fst current) = []"
    by (auto simp: filter_empty_conv map_of_eq_None_iff)
  then show "findChangedColumns current current = []"
    by (simp add: findChangedColumns_keys [OF dc])
next
  fix k previousPaths currentPaths
  assume h: "map_of previous k = Some previousPaths \<and> map_of current k = Some currentPaths
          \<and> previousPaths \<noteq> currentPaths
          \<and> (\<forall>k'. k' \<noteq> k \<longrightarrow> map_of previous k' = map_of current k')"
  then have kin: "k \<in> set (map fst current)"
    by (auto dest: map_of_SomeD intro: rev_image_eqI)
  have agree: "(map_of previous k' \<noteq> map_of current k') = (k' = k)" for k'
    using h by auto
  have none: "filter (\<lambda>k. map_of current k = None) (map fst previous) = []"
  proof -
    have "map_of current k' \<noteq> None" if "k' \<in> set (map fst previous)" for k'
    proof (cases "k' = k")
      case True
      with h show ?thesis by simp
    next
      case False
      with h have "map_of current k' = map_of previous k'" by simp
      moreover from that have "map_of previous k' \<noteq> None"
        by (simp add: map_of_eq_None_iff)
      ultimately show ?thesis by simp
    qed
    then show ?thesis by (simp add: filter_empty_conv)
  qed
  show "findChangedColumns previous current = [k]"
    by (simp only: findChangedColumns_keys [OF dc] agree none
          filter_eq_single [OF dc kin] append_Nil2)
next
  show "findChangedColumns previous current
        = filter (\<lambda>k. map_of previous k \<noteq> map_of current k) (map fst current)
          @ filter (\<lambda>k. map_of current k = None) (map fst previous)"
    by (rule findChangedColumns_keys [OF dc])
qed

theorem findChangedColumns_correct_witness:
  "findChangedColumns [(lit ''todo'', [lit ''b'', lit ''a'']), (lit ''done'', [lit ''c''])]
       [(lit ''todo'', [lit ''b'', lit ''a'']), (lit ''done'', [lit ''c''])] = []
   \<and> findChangedColumns [(lit ''todo'', [lit ''a'', lit ''b'']), (lit ''done'', [lit ''c''])]
       [(lit ''todo'', [lit ''b'', lit ''a'']), (lit ''done'', [lit ''c''])] = [lit ''todo'']
   \<and> findChangedColumns [(lit ''x'', [lit ''a'']), (lit ''y'', [])]
       [(lit ''y'', [lit ''b'']), (lit ''z'', [])] = [lit ''y'', lit ''z'', lit ''x'']"
  using findChangedColumns_correct
    [of "[(lit ''todo'', [lit ''a'', lit ''b'']), (lit ''done'', [lit ''c''])]"
        "[(lit ''todo'', [lit ''b'', lit ''a'']), (lit ''done'', [lit ''c''])]"]
    findChangedColumns_correct
    [of "[(lit ''x'', [lit ''a'']), (lit ''y'', [])]"
        "[(lit ''y'', [lit ''b'']), (lit ''z'', [])]"]
  by (simp add: lit_eq_iff)

text \<open>
  C7 (as amended). computeRenderSignature is deterministic: two calls whose inputs are
  equal as values, whatever the identity of the entry objects, return the same string,
  where equal display settings are records of the same seven fields (the object that
  render builds, its keys in that order) and equal local order maps hold the same
  entries in the same insertion order. Of the groups the signature reads no more than
  the rendered data: groups that agree on their normalized column keys, their entry
  paths and the string forms of the values of the tracked properties (the selected ones
  but the file name and the group-by property) give the same string, whatever their
  flags and their other property values.
\<close>

theorem computeRenderSignature_same_inputs:
  assumes "displaySettings1 = displaySettings2"
    and "localCardOrder1 = localCardOrder2"
    and "selectedProperties1 = selectedProperties2"
    and "groupByProperty1 = groupByProperty2"
  shows "(list_all2 sameGroupValues groups1 groups2 \<longrightarrow>
            computeRenderSignature toStr jsonNumber groups1 displaySettings1 localCardOrder1
              selectedProperties1 groupByProperty1
            = computeRenderSignature toStr jsonNumber groups2 displaySettings2 localCardOrder2
              selectedProperties2 groupByProperty2)
    \<and> (list_all2
           (sameRenderedGroup toStr
              (filter (\<lambda>propertyId. propertyId \<noteq> lit ''file.name''
                         \<and> Some propertyId \<noteq> groupByProperty1) selectedProperties1))
           groups1 groups2 \<longrightarrow>
            computeRenderSignature toStr jsonNumber groups1 displaySettings1 localCardOrder1
              selectedProperties1 groupByProperty1
            = computeRenderSignature toStr jsonNumber groups2 displaySettings2 localCardOrder2
              selectedProperties2 groupByProperty2)"
proof (intro conjI impI)
  assume "list_all2 sameGroupValues groups1 groups2"
  then have "list_all2
           (sameRenderedGroup toStr
              (filter (\<lambda>propertyId. propertyId \<noteq> lit ''file.name''
                         \<and> Some propertyId \<noteq> groupByProperty1) selectedProperties1))
           groups1 groups2"
    by (rule list_all2_mono) (rule sameGroupValues_rendered)
  from computeRenderSignature_rendered [OF this] assms
  show "computeRenderSignature toStr jsonNumber groups1 displaySettings1 localCardOrder1
              selectedProperties1 groupByProperty1
            = computeRenderSignature toStr jsonNumber groups2 displaySettings2 localCardOrder2
              selectedProperties2 groupByProperty2"
    by simp
next
  assume "list_all2
           (sameRenderedGroup toStr
              (filter (\<lambda>propertyId. propertyId \<noteq> lit ''file.name''
                         \<and> Some propertyId \<noteq> groupByProperty1) selectedProperties1))
           groups1 groups2"
  from computeRenderSignature_rendered [OF this] assms
  show "computeRenderSignature toStr jsonNumber groups1 displaySettings1 localCardOrder1
              selectedProperties1 groupByProperty1
            = computeRenderSignature toStr jsonNumber groups2 displaySettings2 localCardOrder2
              selectedProperties2 groupByProperty2"
    by simp
qed

theorem computeRenderSignature_same_inputs_witness:
  "exampleGroups 11 \<noteq> exampleGroups 12
   \<and> computeRenderSignature (\<lambda>v. v) (intToString 10) (exampleGroups 11) (exampleSettings 60)
         [(lit ''todo'', [lit ''a.md''])] [lit ''note.tags''] None
     = computeRenderSignature (\<lambda>v. v) (intToString 10) (exampleGroups 12) (exampleSettings 60)
         [(lit ''todo'', [lit ''a.md''])] [lit ''note.tags''] None
   \<and> computeRenderSignature (\<lambda>v. v) (intToString 10)
         [\<lparr>key = Some (lit ''todo''), hasKey = True,
            entries = [\<lparr>objectId = 11, file_path = lit ''a.md'',
                        getValue = (\<lambda>p. if p = lit ''note.tags'' then Some (lit ''x'')
                                       else None)\<rparr>]\<rparr>]
         (exampleSettings 60) [(lit ''todo'', [lit ''a.md''])]
         [lit ''file.name'', lit ''note.tags''] None
     = computeRenderSignature (\<lambda>v. v) (intToString 10)
         [\<lparr>key = Some (lit ''todo''), hasKey = False,
            entries = [\<lparr>objectId = 12, file_path = lit ''a.md'',
                        getValue = (\<lambda>p. if p = lit ''note.tags'' then Some (lit ''x'')
                                       else Some (lit ''other''))\<rparr>]\<rparr>]
         (exampleSettings 60) [(lit ''todo'', [lit ''a.md''])]
         [lit ''file.name'', lit ''note.tags''] None"
proof (intro conjI)
  show "exampleGroups 11 \<noteq> exampleGroups 12"
    by simp
  have "list_all2 sameGroupValues (exampleGroups 11) (exampleGroups 12)"
    by (simp add: sameGroupValues_def sameEntryValues_def)
  with computeRenderSignature_same_inputs
    [OF refl refl refl refl, where ?groups1.0 = "exampleGroups 11"
       and ?groups2.0 = "exampleGroups 12"]
  show "computeRenderSignature (\<lambda>v. v) (intToString 10) (exampleGroups 11) (exampleSettings 60)
         [(lit ''todo'', [lit ''a.md''])] [lit ''note.tags''] None
     = computeRenderSignature (\<lambda>v. v) (intToString 10) (exampleGroups 12) (exampleSettings 60)
         [(lit ''todo'', [lit ''a.md''])] [lit ''note.tags''] None"
    by blast
  let ?g1 = "[\<lparr>key = Some (lit ''todo''), hasKey = True,
            entries = [\<lparr>objectId = 11, file_path = lit ''a.md'',
                        getValue = (\<lambda>p. if p = lit ''note.tags'' then Some (lit ''x'')
                                       else None)\<rparr>]\<rparr>] :: jsstring BasesEntryGroup list"
  let ?g2 = "[\<lparr>key = Some (lit ''todo''), hasKey = False,
            entries = [\<lparr>objectId = 12, file_path = lit ''a.md'',
                        getValue = (\<lambda>p. if p = lit ''note.tags'' then Some (lit ''x'')
                                       else Some (lit ''other''))\<rparr>]\<rparr>] :: jsstring BasesEntryGroup list"
  have "list_all2
          (sameRenderedGroup (\<lambda>v. v)
             (filter (\<lambda>propertyId. propertyId \<noteq> lit ''file.name'' \<and> Some propertyId \<noteq> None)
                [lit ''file.name'', lit ''note.tags'']))
          ?g1 ?g2"
    by (simp add: sameRenderedGroup_def sameRenderedEntry_def lit_eq_iff)
  with computeRenderSignature_same_inputs
    [OF refl refl refl refl, where ?groups1.0 = ?g1 and ?groups2.0 = ?g2
       and toStr = "\<lambda>v. v" and ?selectedProperties1.0 = "[lit ''file.name'', lit ''note.tags'']"
       and ?groupByProperty1.0 = None]
  show "computeRenderSignature (\<lambda>v. v) (intToString 10) ?g1
         (exampleSettings 60) [(lit ''todo'', [lit ''a.md''])]
         [lit ''file.name'', lit ''note.tags''] None
     = computeRenderSignature (\<lambda>v. v) (intToString 10) ?g2
         (exampleSettings 60) [(lit ''todo'', [lit ''a.md''])]
         [lit ''file.name'', lit ''note.tags''] None"
    by blast
qed

text \<open>
  C7 as stated fails for the local order map: two maps that hold the same entries,
  inserted in a different order, are equal as values and give different signatures,
  since the signature lists the entries of the map in insertion order.
\<close>

theorem computeRenderSignature_map_order_counterexample:
  "sameMapValues [(lit ''todo'', [lit ''a.md'']), (lit ''done'', [lit ''b.md''])]
                 [(lit ''done'', [lit ''b.md'']), (lit ''todo'', [lit ''a.md''])]
   \<and> map_of [(lit ''todo'', [lit ''a.md'']), (lit ''done'', [lit ''b.md''])]
       = map_of [(lit ''done'', [lit ''b.md'']), (lit ''todo'', [lit ''a.md''])]
   \<and> computeRenderSignature (\<lambda>v. v) (intToString 10) (exampleGroups 11) (exampleSettings 60)
         [(lit ''todo'', [lit ''a.md'']), (lit ''done'', [lit ''b.md''])] [] None
     \<noteq> computeRenderSignature (\<lambda>v. v) (intToString 10) (exampleGroups 11) (exampleSettings 60)
         [(lit ''done'', [lit ''b.md'']), (lit ''todo'', [lit ''a.md''])] [] None"
proof (intro conjI)
  show "sameMapValues [(lit ''todo'', [lit ''a.md'']), (lit ''done'', [lit ''b.md''])]
                 [(lit ''done'', [lit ''b.md'']), (lit ''todo'', [lit ''a.md''])]"
    by (auto simp: sameMapValues_def lit_eq_iff)
  show "map_of [(lit ''todo'', [lit ''a.md'']), (lit ''done'', [lit ''b.md''])]
       = map_of [(lit ''done'', [lit ''b.md'']), (lit ''todo'', [lit ''a.md''])]"
    by (auto simp: fun_eq_iff lit_eq_iff)
  show "computeRenderSignature (\<lambda>v. v) (intToString 10) (exampleGroups 11) (exampleSettings 60)
         [(lit ''todo'', [lit ''a.md'']), (lit ''done'', [lit ''b.md''])] [] None
     \<noteq> computeRenderSignature (\<lambda>v. v) (intToString 10) (exampleGroups 11) (exampleSettings 60)
         [(lit ''done'', [lit ''b.md'']), (lit ''todo'', [lit ''a.md''])] [] None"
    using example_map_order by (simp add: computeRenderSignature_def)
qed

text \<open>
  C8. For every existing-path list, moved-path list, placement and non-null target path,
  if the target path is among the moved paths then reorderPathsForDrop returns the
  existing-path list unchanged.
\<close>

theorem reorderPathsForDrop_target_moved:
  "t \<in> set movedPaths \<Longrightarrow>
     reorderPathsForDrop existingPaths movedPaths (Some t) placement = existingPaths"
  by (simp add: reorderPathsForDrop_def)

theorem reorderPathsForDrop_target_moved_witness:
  "lit ''b'' \<in> set [lit ''b'', lit ''c''] \<and>
   reorderPathsForDrop [lit ''a'', lit ''b'', lit ''c''] [lit ''b'', lit ''c'']
     (Some (lit ''b'')) Before = [lit ''a'', lit ''b'', lit ''c'']"
  using reorderPathsForDrop_target_moved
    [of "lit ''b''" "[lit ''b'', lit ''c'']" "[lit ''a'', lit ''b'', lit ''c'']" Before]
  by simp

text \<open>
  C9. The hasRenderedBoard flag of a view is monotonic: it starts false, it is true when
  a full render completes, and no sequence of operations (data updates, whether they end
  in a skip, a placeholder, a partial or a full render, and scroll saves) resets it from
  true to false.
\<close>

theorem hasRenderedBoard_monotonic:
  "hasRenderedBoard (initialView sid) = False
   \<and> (fst (render toStr jsonNumber cfg s inp) = FullRender
        \<longrightarrow> hasRenderedBoard (snd (render toStr jsonNumber cfg s inp)))
   \<and> (hasRenderedBoard s \<longrightarrow> hasRenderedBoard (runView toStr jsonNumber cfg s ops))"
  by (simp add: initialView_def render_full_sets_flag runView_flag_mono)

theorem hasRenderedBoard_monotonic_witness:
  "hasRenderedBoard (initialView (lit ''s1'')) = False
   \<and> fst (render (\<lambda>v. v) (intToString 10) (\<lambda>_. True) (initialView (lit ''s1''))
          (exampleInput 60)) = FullRender
   \<and> hasRenderedBoard
       (runView (\<lambda>v. v) (intToString 10) (\<lambda>_. True) (initialView (lit ''s1''))
          [DataUpdated None (exampleInput 60), ScrollSaved 3,
           DataUpdated (Some \<lparr>sessionId = lit ''s1'', revision = 3\<rparr>) (exampleInput 60),
           DataUpdated None (exampleInput 60), DataUpdated None (exampleInput 80)])"
proof -
  have first: "viewStep (\<lambda>v. v) (intToString 10) (\<lambda>_. True) (initialView (lit ''s1''))
                 (DataUpdated None (exampleInput 60)) = exampleRendered"
  proof -
    have "pendingLocalScrollRevision (initialView (lit ''s1'')) = None"
      by (simp add: initialView_def)
    then show ?thesis
      by (simp add: viewStep_def onDataUpdated_def shouldSkipRenderForOwnScrollUpdate_def
            example_first_render)
  qed
  have flag: "hasRenderedBoard exampleRendered" by simp
  from hasRenderedBoard_monotonic
    [of "lit ''s1''" "\<lambda>v. v" "intToString 10" "\<lambda>_. True" "initialView (lit ''s1'')"
        "exampleInput 60"]
    hasRenderedBoard_monotonic
    [where s = exampleRendered and toStr = "\<lambda>v. v" and jsonNumber = "intToString 10"
       and cfg = "\<lambda>_. True"
       and ops = "[ScrollSaved 3,
           DataUpdated (Some \<lparr>sessionId = lit ''s1'', revision = 3\<rparr>) (exampleInput 60),
           DataUpdated None (exampleInput 60), DataUpdated None (exampleInput 80)]"]
    flag
  show ?thesis
    by (simp add: runView_def first example_first_render)
qed

text \<open>
  C10 (as amended). For every existing-path list, moved-path list (the non-empty ones in
  particular) and placement, when the target path is null, or is not among the moved
  paths and is absent from the list that remains after removing the moved paths,
  reorderPathsForDrop puts the moved paths contiguously at the end of the remaining
  existing paths, both parts in their own order. A target that is itself among the moved
  paths is excluded: it is absent from the remaining list too, and there the guard
  returns the existing list unchanged.
\<close>

theorem reorderPathsForDrop_appends:
  assumes "case targetPath of
             None \<Rightarrow> True
           | Some t \<Rightarrow> t \<notin> set movedPaths
                \<and> t \<notin> set (filter (\<lambda>path. path \<notin> set movedPaths) existingPaths)"
  shows "reorderPathsForDrop existingPaths movedPaths targetPath placement
           = filter (\<lambda>path. path \<notin> set movedPaths) existingPaths @ movedPaths"
proof (cases targetPath)
  case None
  then show ?thesis
    by (simp add: reorderPathsForDrop_def spliceInsert_at_end)
next
  case (Some t)
  from assms Some have nm: "t \<notin> set movedPaths"
    by simp
  from assms Some
  have nr: "t \<notin> set (filter (\<lambda>path. path \<notin> set movedPaths) existingPaths)"
    by (simp del: set_filter)
  have "indexOf (filter (\<lambda>path. path \<notin> set movedPaths) existingPaths) t = -1"
    using nr by (rule indexOf_absent)
  with Some nm show ?thesis
    by (simp add: reorderPathsForDrop_def spliceInsert_at_end)
qed

theorem reorderPathsForDrop_appends_witness:
  "reorderPathsForDrop [lit ''a'', lit ''b'', lit ''c''] [lit ''c'', lit ''a'']
     (Some (lit ''z'')) Before = [lit ''b'', lit ''c'', lit ''a'']
   \<and> reorderPathsForDrop [lit ''a'', lit ''b'', lit ''c''] [lit ''c'', lit ''a'']
     None After = [lit ''b'', lit ''c'', lit ''a'']"
  using reorderPathsForDrop_appends
    [where targetPath = "Some (lit ''z'')" and movedPaths = "[lit ''c'', lit ''a'']"
       and existingPaths = "[lit ''a'', lit ''b'', lit ''c'']" and placement = Before]
    reorderPathsForDrop_appends
    [where targetPath = None and movedPaths = "[lit ''c'', lit ''a'']"
       and existingPaths = "[lit ''a'', lit ''b'', lit ''c'']" and placement = After]
  by (simp add: lit_eq_iff)

text \<open>
  C10 as stated fails when the target is itself a moved path: with existing paths
  \<open>[a, b]\<close>, moved paths \<open>[a]\<close> and target \<open>a\<close>, the target is absent from the
  remaining list \<open>[b]\<close>, yet the result is \<open>[a, b]\<close> and not \<open>[b, a]\<close>.
\<close>

theorem reorderPathsForDrop_appends_counterexample:
  "[lit ''a''] \<noteq> []
   \<and> lit ''a'' \<notin> set (filter (\<lambda>path. path \<notin> set [lit ''a'']) [lit ''a'', lit ''b''])
   \<and> reorderPathsForDrop [lit ''a'', lit ''b''] [lit ''a''] (Some (lit ''a'')) After
       = [lit ''a'', lit ''b'']
   \<and> filter (\<lambda>path. path \<notin> set [lit ''a'']) [lit ''a'', lit ''b''] @ [lit ''a'']
       = [lit ''b'', lit ''a'']
   \<and> reorderPathsForDrop [lit ''a'', lit ''b''] [lit ''a''] (Some (lit ''a'')) After
       \<noteq> filter (\<lambda>path. path \<notin> set [lit ''a'']) [lit ''a'', lit ''b''] @ [lit ''a'']"
  by (simp add: reorderPathsForDrop_def lit_eq_iff)

end
